theory Spec2Isabelle
  imports Main "HOL-Library.Sublist"
begin

section \<open>Platform primitives on strings\<close>

text \<open>
  A string is a list of characters. The strings in scope are ASCII: \<open>toLowerCase\<close>
  folds the letters A to Z, and the white space of \<open>\s\<close> and of \<open>trim\<close> is tab, line
  feed, vertical tab, form feed, carriage return and space.
\<close>

definition is_upper :: "char \<Rightarrow> bool" where
  "is_upper c \<longleftrightarrow> (65::nat) \<le> of_char c \<and> of_char c \<le> (90::nat)"

definition is_lower :: "char \<Rightarrow> bool" where
  "is_lower c \<longleftrightarrow> (97::nat) \<le> of_char c \<and> of_char c \<le> (122::nat)"

definition is_digit :: "char \<Rightarrow> bool" where
  "is_digit c \<longleftrightarrow> (48::nat) \<le> of_char c \<and> of_char c \<le> (57::nat)"

definition is_space :: "char \<Rightarrow> bool" where
  "is_space c \<longleftrightarrow> (9::nat) \<le> of_char c \<and> of_char c \<le> (13::nat) \<or> of_char c = (32::nat)"

definition lower_char :: "char \<Rightarrow> char" where
  "lower_char c = (if is_upper c then char_of (of_char c + (32::nat)) else c)"

definition toLowerCase :: "string \<Rightarrow> string" where
  "toLowerCase s = map lower_char s"

text \<open>\<open>hay.includes(needle)\<close>: the needle occurs as a contiguous run of the haystack.\<close>

fun str_includes :: "string \<Rightarrow> string \<Rightarrow> bool" where
  "str_includes [] needle = (needle = [])"
| "str_includes (c # cs) needle = (prefix needle (c # cs) \<or> str_includes cs needle)"

definition endsWith :: "string \<Rightarrow> string \<Rightarrow> bool" where
  "endsWith s t = suffix t s"

text \<open>\<open>xs.join(sep)\<close> on an array of strings.\<close>

fun join :: "string \<Rightarrow> string list \<Rightarrow> string" where
  "join sep [] = []"
| "join sep [x] = x"
| "join sep (x # y # ys) = x @ sep @ join sep (y # ys)"

text \<open>\<open>s.trim()\<close>: white space removed at both ends.\<close>

definition trim :: "string \<Rightarrow> string" where
  "trim s = rev (dropWhile is_space (rev (dropWhile is_space s)))"

text \<open>
  \<open>s.replace(/\s+/g, "_")\<close>: every maximal run of white space becomes one underscore.
  The flag says whether the character before was white space.
\<close>

fun replace_ws_from :: "bool \<Rightarrow> string \<Rightarrow> string" where
  "replace_ws_from in_run [] = []"
| "replace_ws_from in_run (c # cs) =
     (if is_space c then (if in_run then replace_ws_from True cs
                          else CHR ''_'' # replace_ws_from True cs)
      else c # replace_ws_from False cs)"

definition replace_ws :: "string \<Rightarrow> string" where
  "replace_ws s = replace_ws_from False s"

section \<open>Rule index (index.ts)\<close>

text \<open>
  \<open>RuleChunk\<close> and \<open>RuleFile\<close> as the interfaces declare them; the optional fields are
  options. The values of \<open>requirements\<close> are of type \<open>unknown\<close> in the source and of
  the type parameter here. A \<open>RuleFile\<close> comes out of \<open>JSON.parse\<close>, which does not
  check the declared shape: \<open>chunks\<close> is \<open>None\<close> when the parsed object has no such
  field or the field is not iterable.
\<close>

record 'r RuleChunk =
  chunk_id :: string
  chunk_section :: string
  chunk_title :: string
  chunk_content :: string
  chunk_requirements :: "'r option"
  chunk_keywords :: "string list option"

record 'r RuleFile =
  rule_number :: string
  rule_title :: string
  rule_chunks :: "'r RuleChunk list option"

text \<open>
  The module state: \<open>rulesCache\<close>, a \<open>Map\<close> that iterates in insertion order, kept as an
  association list with distinct keys, and the flat array \<open>allChunks\<close>.
\<close>

record 'r rule_index =
  rulesCache :: "(string \<times> 'r RuleFile) list"
  allChunks :: "'r RuleChunk list"

definition empty_index :: "'r rule_index" where
  "empty_index = \<lparr>rulesCache = [], allChunks = []\<rparr>"

text \<open>\<open>Map.set\<close>: an existing key keeps its place and takes the new value; a new key goes last.\<close>

fun map_set :: "'k \<Rightarrow> 'v \<Rightarrow> ('k \<times> 'v) list \<Rightarrow> ('k \<times> 'v) list" where
  "map_set k v [] = [(k, v)]"
| "map_set k v ((k', v') # m) = (if k' = k then (k, v) # m else (k', v') # map_set k v m)"

definition map_get :: "('k \<times> 'v) list \<Rightarrow> 'k \<Rightarrow> 'v option" where
  "map_get m k = map_of m k"

text \<open>
  What \<open>readFileSync\<close> followed by \<open>JSON.parse\<close> gives for one directory entry: the read
  throws, the parse throws, or the text parses to an object with a rule number and a
  title (strings, as declared) and with or without a chunk array.
  The directory is the list \<open>readdirSync\<close> returns, or nothing when that call throws.
\<close>

datatype 'r rule_source = Unreadable | NotJson | Json "'r RuleFile"

datatype load_failure =
  ReaddirFailed | ReadFailed string | ParseFailed string | SpreadFailed string

datatype log_line = Loaded nat nat | ErrorLoadingRules load_failure

text \<open>
  The body of the \<open>for\<close> loop. A throw leaves the loop with the state as mutated so far;
  the first component is the exception, if any. The document is put into \<open>rulesCache\<close>
  before \<open>allChunks.push(...rule.chunks)\<close> runs, so a document without iterable chunks
  is in the cache when the spread throws.
\<close>

fun load_files ::
  "'r rule_index \<Rightarrow> (string \<times> 'r rule_source) list \<Rightarrow> load_failure option \<times> 'r rule_index" where
  "load_files idx [] = (None, idx)"
| "load_files idx ((file, src) # rest) =
     (case src of
        Unreadable \<Rightarrow> (Some (ReadFailed file), idx)
      | NotJson \<Rightarrow> (Some (ParseFailed file), idx)
      | Json rule \<Rightarrow>
          (let cached = idx\<lparr>rulesCache := map_set (rule_number rule) rule (rulesCache idx)\<rparr>
           in case rule_chunks rule of
                None \<Rightarrow> (Some (SpreadFailed file), cached)
              | Some chunks \<Rightarrow>
                  load_files (cached\<lparr>allChunks := allChunks cached @ chunks\<rparr>) rest))"

text \<open>
  \<open>loadRules\<close>: one \<open>try\<close> around the directory listing and the whole loop; the
  \<open>catch\<close> logs and returns. The result is the module state afterwards and the line
  written to the log.
\<close>

definition loadRules ::
  "'r rule_index \<Rightarrow> (string \<times> 'r rule_source) list option \<Rightarrow> 'r rule_index \<times> log_line" where
  "loadRules idx dir =
     (case dir of
        None \<Rightarrow> (idx, ErrorLoadingRules ReaddirFailed)
      | Some entries \<Rightarrow>
          (let ruleFiles = filter (\<lambda>(f, src). endsWith f ''.json'') entries
           in case load_files idx ruleFiles of
                (None, idx') \<Rightarrow>
                  (idx', Loaded (length (rulesCache idx')) (length (allChunks idx')))
              | (Some e, idx') \<Rightarrow> (idx', ErrorLoadingRules e)))"

text \<open>
  The three replies of the \<open>get_rule\<close> tool: the rule as JSON, the matching chunks
  under the query, or the not-found text.
\<close>

datatype 'r get_rule_result =
    RuleText "'r RuleFile"
  | ChunkResults string "'r RuleChunk list"
  | NotFoundText string

definition partial_match :: "string \<Rightarrow> string \<times> 'v \<Rightarrow> bool" where
  "partial_match ruleNumber kv =
     (str_includes (toLowerCase (fst kv)) (toLowerCase ruleNumber) \<or>
      str_includes (toLowerCase ruleNumber) (toLowerCase (fst kv)))"

definition chunk_match :: "string \<Rightarrow> 'r RuleChunk \<Rightarrow> bool" where
  "chunk_match ruleNumber chunk =
     (str_includes (toLowerCase (chunk_section chunk)) (toLowerCase ruleNumber) \<or>
      str_includes (toLowerCase (chunk_id chunk)) (replace_ws (toLowerCase ruleNumber)))"

definition not_found_text :: "string \<Rightarrow> string list \<Rightarrow> string" where
  "not_found_text ruleNumber keys =
     ''Rule '' @ [CHR 0x22] @ ruleNumber @ [CHR 0x22] @ '' not found. Available rules: ''
       @ join '', '' keys"

text \<open>The \<open>get_rule\<close> case of the tool handler; the argument may be absent.\<close>

definition get_rule :: "'r rule_index \<Rightarrow> string option \<Rightarrow> 'r get_rule_result" where
  "get_rule idx arg =
     (let ruleNumber = (case arg of None \<Rightarrow> [] | Some s \<Rightarrow> s);
          exact = map_get (rulesCache idx) ruleNumber;
          rule = (case exact of
                    Some r \<Rightarrow> Some r
                  | None \<Rightarrow> map_option snd (find (partial_match ruleNumber) (rulesCache idx)));
          matchingChunks = filter (chunk_match ruleNumber) (allChunks idx)
      in case rule of
           None \<Rightarrow>
             (if length matchingChunks > 0 then ChunkResults ruleNumber matchingChunks
              else NotFoundText (not_found_text ruleNumber (map fst (rulesCache idx))))
         | Some r \<Rightarrow> RuleText r)"

text \<open>The \<open>search_rules\<close> case: the text searched, the projection of a hit, the reply.\<close>

record 'r search_hit =
  hit_section :: string
  hit_title :: string
  hit_content :: string
  hit_requirements :: "'r option"

record 'r search_reply =
  reply_query :: string
  result_count :: nat
  reply_results :: "'r search_hit list"

definition searchText :: "'r RuleChunk \<Rightarrow> string" where
  "searchText chunk =
     toLowerCase
       (chunk_title chunk @ '' '' @ chunk_content chunk @ '' '' @
        (case chunk_keywords chunk of None \<Rightarrow> [] | Some ks \<Rightarrow> join '' '' ks))"

definition project :: "'r RuleChunk \<Rightarrow> 'r search_hit" where
  "project r =
     \<lparr>hit_section = chunk_section r, hit_title = chunk_title r,
      hit_content = chunk_content r, hit_requirements = chunk_requirements r\<rparr>"

definition matching :: "'r rule_index \<Rightarrow> string \<Rightarrow> 'r RuleChunk list" where
  "matching idx query = filter (\<lambda>chunk. str_includes (searchText chunk) query) (allChunks idx)"

definition search_rules :: "'r rule_index \<Rightarrow> string option \<Rightarrow> 'r search_reply" where
  "search_rules idx arg =
     (let query = toLowerCase (case arg of None \<Rightarrow> [] | Some s \<Rightarrow> s);
          res = matching idx query
      in \<lparr>reply_query = query, result_count = length res,
          reply_results = map project res\<rparr>)"

section \<open>Legal-records client (courtlistener.ts)\<close>

text \<open>
  The values a query parameter can take: \<open>string | number | boolean | undefined\<close>.
  The numbers are those the client handles: integers (identifiers, pages, thresholds)
  and what \<open>parseInt\<close> returns on a string of digits. \<open>PNum i\<close> is the double whose
  value is the integer \<open>i\<close>.
\<close>

datatype param_value = PStr string | PNum int | PBool bool | PNaN | PInfinity | PUndefined

type_synonym params = "(string \<times> param_value) list"

definition digit_char :: "nat \<Rightarrow> char" where
  "digit_char d = char_of (48 + d)"

fun show_nat :: "nat \<Rightarrow> string" where
  "show_nat n = (if n < 10 then [digit_char n] else show_nat (n div 10) @ [digit_char (n mod 10)])"

declare show_nat.simps [simp del]

text \<open>
  The double nearest to a natural number, or nothing for \<open>Infinity\<close>. Up to \<open>2^53\<close> every
  integer is a double. Above, a double keeps 53 significant bits: the rest is rounded
  off, to the nearest, and to the even one of two equally near; a result of \<open>2^1024\<close>
  or more is infinite.
\<close>

fun bit_length :: "nat \<Rightarrow> nat" where
  "bit_length n = (if n = 0 then 0 else Suc (bit_length (n div 2)))"

declare bit_length.simps [simp del]

definition to_double :: "nat \<Rightarrow> nat option" where
  "to_double n =
     (if int n \<le> 2 ^ 53 then Some n
      else
        (let shift = bit_length n - 53;
             q = n div 2 ^ shift;
             r = n mod 2 ^ shift;
             half = 2 ^ (shift - 1);
             q' = (if half < r \<or> (r = half \<and> odd q) then q + 1 else q)
         in if 2 ^ 1024 \<le> q' * 2 ^ shift then None else Some (q' * 2 ^ shift)))"

text \<open>
  \<open>Number::toString\<close> on a double with a natural value \<open>m\<close>. Up to \<open>2^53\<close> it is the
  decimal digits of \<open>m\<close>. Above, it takes the least number \<open>k\<close> of digits for which some
  \<open>s\<close> of \<open>k\<close> digits and some \<open>n\<close> give a value \<open>s * 10^(n - k)\<close> that reads back as \<open>m\<close>
  (the nearest such value; 17 digits always do), and prints \<open>s\<close> followed by zeros
  when \<open>n\<close> is at most 21, and in exponent form otherwise.
\<close>

definition candidates :: "nat \<Rightarrow> nat \<Rightarrow> (nat \<times> nat) list" where
  "candidates m k =
     [(n, s).
        n \<leftarrow> [length (show_nat m), Suc (length (show_nat m))], k \<le> n,
        s \<leftarrow> [m div 10 ^ (n - k), Suc (m div 10 ^ (n - k))],
        10 ^ (k - 1) \<le> s \<and> s < 10 ^ k \<and> to_double (s * 10 ^ (n - k)) = Some m]"

definition distance :: "nat \<Rightarrow> nat \<Rightarrow> nat \<times> nat \<Rightarrow> nat" where
  "distance m k c = (let x = snd c * 10 ^ (fst c - k) in if m \<le> x then x - m else m - x)"

definition closer :: "nat \<Rightarrow> nat \<Rightarrow> nat \<times> nat \<Rightarrow> nat \<times> nat \<Rightarrow> bool" where
  "closer m k c d \<longleftrightarrow>
     distance m k c < distance m k d \<or>
     (distance m k c = distance m k d \<and> even (snd c) \<and> odd (snd d))"

definition closest :: "nat \<Rightarrow> nat \<Rightarrow> (nat \<times> nat) list \<Rightarrow> nat \<times> nat" where
  "closest m k cs = foldl (\<lambda>best c. if closer m k c best then c else best) (hd cs) (tl cs)"

definition shortest_digits :: "nat \<Rightarrow> string" where
  "shortest_digits m =
     (case find (\<lambda>k. candidates m k \<noteq> []) [1 ..< 18] of
        None \<Rightarrow> show_nat m
      | Some k \<Rightarrow>
          (let (n, s) = closest m k (candidates m k)
           in if n \<le> 21 then show_nat s @ replicate (n - k) CHR ''0''
              else (if k = 1 then show_nat s
                    else hd (show_nat s) # CHR ''.'' # tl (show_nat s))
                   @ ''e+'' @ show_nat (n - 1)))"

definition number_text :: "nat \<Rightarrow> string" where
  "number_text m = (if int m \<le> 2 ^ 53 then show_nat m else shortest_digits m)"

definition show_int :: "int \<Rightarrow> string" where
  "show_int i = (if i < 0 then CHR ''-'' # number_text (nat (- i)) else number_text (nat i))"

text \<open>\<open>String(value)\<close> on a parameter value.\<close>

fun String :: "param_value \<Rightarrow> string" where
  "String (PStr s) = s"
| "String (PNum i) = show_int i"
| "String (PBool b) = (if b then ''true'' else ''false'')"
| "String PNaN = ''NaN''"
| "String PInfinity = ''Infinity''"
| "String PUndefined = ''undefined''"

text \<open>
  \<open>parseInt\<close> on a string that starts with its decimal digits (the only use is on the
  \<open>\d+\<close> group of the citation pattern): the double nearest to the value of the leading
  digits, \<open>NaN\<close> without a leading digit.
\<close>

definition digit_value :: "char \<Rightarrow> nat" where
  "digit_value c = of_char c - 48"

definition decimal :: "string \<Rightarrow> nat" where
  "decimal ds = foldl (\<lambda>a c. 10 * a + digit_value c) 0 ds"

definition parseInt :: "string \<Rightarrow> param_value" where
  "parseInt s =
     (let ds = takeWhile is_digit s
      in if ds = [] then PNaN
         else (case to_double (decimal ds) of
                 None \<Rightarrow> PInfinity
               | Some m \<Rightarrow> PNum (int m)))"

text \<open>
  The \<open>URL\<close> object: the text it was built from and its \<open>searchParams\<close>, a list of
  name and value pairs, empty at first (the base URL carries no query).
  \<open>searchParams.set\<close> overwrites the first pair of that name and drops the others, or
  appends.
\<close>

record url =
  href :: string
  searchParams :: "(string \<times> string) list"

fun searchParams_set :: "string \<Rightarrow> string \<Rightarrow> (string \<times> string) list \<Rightarrow> (string \<times> string) list" where
  "searchParams_set k v [] = [(k, v)]"
| "searchParams_set k v ((k', v') # ps) =
     (if k' = k then (k, v) # filter (\<lambda>p. fst p \<noteq> k) ps
      else (k', v') # searchParams_set k v ps)"

record request =
  req_url :: url
  req_headers :: "(string \<times> string) list"

text \<open>What \<open>fetch\<close> does with a request: it rejects, or a response with status and body arrives.\<close>

datatype http_outcome = NetworkFailure | Response nat string

datatype failure = Error string | FetchRejected | InvalidJson

record CourtListenerConfig =
  apiToken :: string
  baseUrl :: "string option"

record CourtListenerClient =
  client_apiToken :: string
  client_baseUrl :: string

definition DEFAULT_BASE_URL :: string where
  "DEFAULT_BASE_URL = ''https://www.courtlistener.com/api/rest/v4''"


text \<open>The constructor; \<open>config.baseUrl || DEFAULT_BASE_URL\<close> takes the default for an empty string too.\<close>

definition new_client :: "CourtListenerConfig \<Rightarrow> CourtListenerClient" where
  "new_client config =
     \<lparr>client_apiToken = apiToken config,
      client_baseUrl = (case baseUrl config of
                          None \<Rightarrow> DEFAULT_BASE_URL
                        | Some b \<Rightarrow> if b = [] then DEFAULT_BASE_URL else b)\<rparr>"

definition response_ok :: "nat \<Rightarrow> bool" where
  "response_ok status \<longleftrightarrow> 200 \<le> status \<and> status \<le> 299"

definition api_error_message :: "nat \<Rightarrow> string \<Rightarrow> string" where
  "api_error_message status errorText =
     ''CourtListener API error ('' @ show_nat status @ ''): '' @ errorText"

text \<open>
  The loop of \<open>fetchApi\<close> over \<open>Object.entries(params)\<close>, the two headers it sets,
  and the request it hands to \<open>fetch\<close>.
\<close>

definition add_params :: "url \<Rightarrow> params \<Rightarrow> url" where
  "add_params u ps =
     foldl (\<lambda>u (key, val).
              if val \<noteq> PUndefined
              then u\<lparr>searchParams := searchParams_set key (String val) (searchParams u)\<rparr>
              else u)
           u ps"

definition client_headers :: "CourtListenerClient \<Rightarrow> (string \<times> string) list" where
  "client_headers cl =
     [(''Authorization'', ''Token '' @ client_apiToken cl), (''Accept'', ''application/json'')]"

definition build_request :: "CourtListenerClient \<Rightarrow> string \<Rightarrow> params option \<Rightarrow> request" where
  "build_request cl endpoint ps =
     (let u0 = \<lparr>href = client_baseUrl cl @ endpoint, searchParams = []\<rparr>;
          u = (case ps of None \<Rightarrow> u0 | Some entries \<Rightarrow> add_params u0 entries)
      in \<lparr>req_url = u, req_headers = client_headers cl\<rparr>)"

text \<open>
  \<open>fetchApi\<close>. The network is the function \<open>fetch\<close>; \<open>json\<close> stands for
  \<open>response.json()\<close> read at the expected type, with no check of the shape. The result
  is the list of requests issued and the value returned or the exception thrown.
\<close>

definition fetchApi ::
  "CourtListenerClient \<Rightarrow> (request \<Rightarrow> http_outcome) \<Rightarrow> (string \<Rightarrow> 'a option) \<Rightarrow>
   string \<Rightarrow> params option \<Rightarrow> request list \<times> (failure + 'a)" where
  "fetchApi cl fetch json endpoint ps =
     (let req = build_request cl endpoint ps
      in ([req],
          case fetch req of
            NetworkFailure \<Rightarrow> Inl FetchRejected
          | Response status body \<Rightarrow>
              if \<not> response_ok status then Inl (Error (api_error_message status body))
              else (case json body of None \<Rightarrow> Inl InvalidJson | Some v \<Rightarrow> Inr v)))"


record 'a PaginatedResponse =
  pr_count :: int
  pr_next :: "string option"
  pr_previous :: "string option"
  pr_results :: "'a list"

record 'c CitationLookupResult =
  clr_count :: int
  clr_results :: "'c list"

record 's SearchResponse =
  sr_count :: int
  sr_next :: "string option"
  sr_previous :: "string option"
  sr_results :: "'s list"










definition fullTextSearch where
  "fullTextSearch cl fetch json (ps :: params) =
     fetchApi cl fetch (json :: string \<Rightarrow> 's SearchResponse option) ''/search/'' (Some ps)"




subsection \<open>The citation pattern\<close>

text \<open>
  \<open>/^(\d+)\s+([A-Za-z0-9.\s]+?)\s+(\d+)$/\<close> as the backtracking matcher runs it.
  A quantified class offers its splits of the remaining input in the order the matcher
  tries them: the longest run first when greedy, the shortest first when lazy. The
  first split for which the rest of the pattern matches wins. The pattern has no flags,
  so \<open>^\<close> and \<open>$\<close> are the two ends of the input.
\<close>

definition greedy_plus :: "(char \<Rightarrow> bool) \<Rightarrow> string \<Rightarrow> (string \<times> string) list" where
  "greedy_plus P s =
     map (\<lambda>n. (take n s, drop n s)) (rev [1 ..< Suc (length (takeWhile P s))])"

definition lazy_plus :: "(char \<Rightarrow> bool) \<Rightarrow> string \<Rightarrow> (string \<times> string) list" where
  "lazy_plus P s =
     map (\<lambda>n. (take n s, drop n s)) [1 ..< Suc (length (takeWhile P s))]"

fun first_some :: "('a \<Rightarrow> 'b option) \<Rightarrow> 'a list \<Rightarrow> 'b option" where
  "first_some f [] = None"
| "first_some f (x # xs) = (case f x of Some y \<Rightarrow> Some y | None \<Rightarrow> first_some f xs)"

definition is_reporter_char :: "char \<Rightarrow> bool" where
  "is_reporter_char c \<longleftrightarrow>
     is_upper c \<or> is_lower c \<or> is_digit c \<or> c = CHR ''.'' \<or> is_space c"

definition match_end :: "string \<Rightarrow> string \<Rightarrow> string \<Rightarrow> string \<Rightarrow> (string \<times> string \<times> string) option" where
  "match_end volume reporter page rest = (if rest = [] then Some (volume, reporter, page) else None)"

definition match_page :: "string \<Rightarrow> string \<Rightarrow> string \<Rightarrow> (string \<times> string \<times> string) option" where
  "match_page volume reporter s =
     first_some (\<lambda>(page, rest). match_end volume reporter page rest) (greedy_plus is_digit s)"

definition match_space2 :: "string \<Rightarrow> string \<Rightarrow> string \<Rightarrow> (string \<times> string \<times> string) option" where
  "match_space2 volume reporter s =
     first_some (\<lambda>(sp, rest). match_page volume reporter rest) (greedy_plus is_space s)"

definition match_reporter :: "string \<Rightarrow> string \<Rightarrow> (string \<times> string \<times> string) option" where
  "match_reporter volume s =
     first_some (\<lambda>(reporter, rest). match_space2 volume reporter rest)
       (lazy_plus is_reporter_char s)"

definition match_space1 :: "string \<Rightarrow> string \<Rightarrow> (string \<times> string \<times> string) option" where
  "match_space1 volume s =
     first_some (\<lambda>(sp, rest). match_reporter volume rest) (greedy_plus is_space s)"

text \<open>\<open>citation.match(...)\<close>: the three groups, or nothing.\<close>

definition match_citation :: "string \<Rightarrow> (string \<times> string \<times> string) option" where
  "match_citation citation =
     first_some (\<lambda>(volume, rest). match_space1 volume rest) (greedy_plus is_digit citation)"

text \<open>\<open>lookupCitation\<close>, with the reader of each of the two response types.\<close>

definition lookupCitation ::
  "CourtListenerClient \<Rightarrow> (request \<Rightarrow> http_outcome) \<Rightarrow>
   (string \<Rightarrow> 'c CitationLookupResult option) \<Rightarrow> (string \<Rightarrow> 's SearchResponse option) \<Rightarrow>
   string \<Rightarrow> request list \<times> (failure + 'c CitationLookupResult)" where
  "lookupCitation cl fetch json_citations json_search citation =
     (case match_citation citation of
        Some (volume, reporter, page) \<Rightarrow>
          fetchApi cl fetch json_citations ''/citations/''
            (Some [(''volume'', parseInt volume),
                   (''reporter'', PStr (trim reporter)),
                   (''page'', PStr page)])
      | None \<Rightarrow>
          (case fullTextSearch cl fetch json_search
                  [(''q'', PStr ([CHR 0x22] @ citation @ [CHR 0x22])), (''type'', PStr ''o'')] of
             (sent, Inl e) \<Rightarrow> (sent, Inl e)
           | (sent, Inr searchResult) \<Rightarrow>
               (sent, Inr \<lparr>clr_count = sr_count searchResult, clr_results = []\<rparr>)))"

section \<open>Auxiliary notions for the statements\<close>

text \<open>
  What a run of \<open>loadRules\<close> over a list of entries gets through. The documents put
  into the cache: those before the first entry whose read or parse throws, up to and
  including the first document without chunks. The chunks a document contributes. The
  exception that ends the run, if any.
\<close>

fun parsed_prefix :: "(string \<times> 'r rule_source) list \<Rightarrow> 'r RuleFile list" where
  "parsed_prefix [] = []"
| "parsed_prefix ((file, Json rule) # rest) =
     (case rule_chunks rule of None \<Rightarrow> [rule] | Some chunks \<Rightarrow> rule # parsed_prefix rest)"
| "parsed_prefix ((file, Unreadable) # rest) = []"
| "parsed_prefix ((file, NotJson) # rest) = []"

definition chunks_of :: "'r RuleFile \<Rightarrow> 'r RuleChunk list" where
  "chunks_of rule = (case rule_chunks rule of None \<Rightarrow> [] | Some chunks \<Rightarrow> chunks)"

fun first_failure :: "(string \<times> 'r rule_source) list \<Rightarrow> load_failure option" where
  "first_failure [] = None"
| "first_failure ((file, Json rule) # rest) =
     (case rule_chunks rule of
        None \<Rightarrow> Some (SpreadFailed file)
      | Some chunks \<Rightarrow> first_failure rest)"
| "first_failure ((file, Unreadable) # rest) = Some (ReadFailed file)"
| "first_failure ((file, NotJson) # rest) = Some (ParseFailed file)"

text \<open>The same for a directory: only the entries named \<open>*.json\<close> count.\<close>

definition rule_files :: "(string \<times> 'r rule_source) list \<Rightarrow> (string \<times> 'r rule_source) list" where
  "rule_files entries = filter (\<lambda>(f, src). endsWith f ''.json'') entries"

definition documents_loaded :: "(string \<times> 'r rule_source) list option \<Rightarrow> 'r RuleFile list" where
  "documents_loaded dir =
     (case dir of None \<Rightarrow> [] | Some entries \<Rightarrow> parsed_prefix (rule_files entries))"

definition load_exception :: "(string \<times> 'r rule_source) list option \<Rightarrow> load_failure option" where
  "load_exception dir =
     (case dir of
        None \<Rightarrow> Some ReaddirFailed
      | Some entries \<Rightarrow> first_failure (rule_files entries))"

text \<open>
  Sample data: three chunks, a rule with one of them, a rule with the other two, a rule
  whose number is the empty string, a parsed object without chunks, and directories.
\<close>

definition example_chunk :: "unit RuleChunk" where
  "example_chunk =
     \<lparr>chunk_id = ''lcvr_7_e'', chunk_section = ''LCvR 7(e)'', chunk_title = ''Page'',
      chunk_content = ''Limits for memoranda'', chunk_requirements = None,
      chunk_keywords = None\<rparr>"

definition example_chunk_a :: "unit RuleChunk" where
  "example_chunk_a =
     \<lparr>chunk_id = ''lcvr_5_1_a'', chunk_section = ''LCvR 5.1(a)'', chunk_title = ''Filing'',
      chunk_content = ''Papers are filed with the Clerk'', chunk_requirements = Some (),
      chunk_keywords = Some [''filing'', ''clerk'']\<rparr>"

definition example_chunk_d :: "unit RuleChunk" where
  "example_chunk_d =
     \<lparr>chunk_id = ''lcvr_5_1_d'', chunk_section = ''LCvR 5.1(d)'', chunk_title = ''Format'',
      chunk_content = ''Typed in 12 point font'', chunk_requirements = None,
      chunk_keywords = Some [''font'']\<rparr>"

definition example_rule :: "unit RuleFile" where
  "example_rule =
     \<lparr>rule_number = ''LCvR 7'', rule_title = ''Motions'', rule_chunks = Some [example_chunk]\<rparr>"

definition example_rule_5 :: "unit RuleFile" where
  "example_rule_5 =
     \<lparr>rule_number = ''LCvR 5.1'', rule_title = ''Form and filing'',
      rule_chunks = Some [example_chunk_a, example_chunk_d]\<rparr>"

definition example_unnumbered :: "unit RuleFile" where
  "example_unnumbered = \<lparr>rule_number = [], rule_title = ''Preface'', rule_chunks = Some []\<rparr>"

definition example_chunkless :: "unit RuleFile" where
  "example_chunkless = \<lparr>rule_number = ''LCvR 83'', rule_title = ''Attorneys'', rule_chunks = None\<rparr>"

definition example_dir :: "(string \<times> unit rule_source) list option" where
  "example_dir = Some [(''lcvr-7.json'', Json example_rule), (''README.md'', Unreadable)]"

definition two_rules_dir :: "(string \<times> unit rule_source) list option" where
  "two_rules_dir =
     Some [(''lcvr-7.json'', Json example_rule), (''notes.txt'', NotJson),
           (''lcvr-5.json'', Json example_rule_5)]"

definition broken_first_dir :: "(string \<times> unit rule_source) list option" where
  "broken_first_dir = Some [(''broken.json'', NotJson), (''lcvr-7.json'', Json example_rule)]"

definition chunkless_dir :: "(string \<times> unit rule_source) list option" where
  "chunkless_dir =
     Some [(''lcvr-7.json'', Json example_rule), (''lcvr-83.json'', Json example_chunkless),
           (''lcvr-5.json'', Json example_rule_5)]"

definition unnumbered_dir :: "(string \<times> unit rule_source) list option" where
  "unnumbered_dir =
     Some [(''lcvr-7.json'', Json example_rule), (''preface.json'', Json example_unnumbered)]"


text \<open>
  Sample data for the client: a client on the default base URL, a server that rejects
  everything with 404, a server that accepts everything, readers for the two response
  types of \<open>lookupCitation\<close>, a reader that finds no JSON, and a parameter object.
\<close>

definition example_client :: CourtListenerClient where
  "example_client = new_client \<lparr>apiToken = ''secret'', baseUrl = None\<rparr>"

definition not_found_server :: "request \<Rightarrow> http_outcome" where
  "not_found_server req = Response 404 ''Not found.''"

definition ok_server :: "request \<Rightarrow> http_outcome" where
  "ok_server req = Response 200 ''{}''"

definition read_search :: "string \<Rightarrow> unit SearchResponse option" where
  "read_search body =
     Some \<lparr>sr_count = 3, sr_next = None, sr_previous = None, sr_results = [(), (), ()]\<rparr>"

definition read_citations :: "string \<Rightarrow> unit CitationLookupResult option" where
  "read_citations body = Some \<lparr>clr_count = 1, clr_results = [()]\<rparr>"

definition unreadable :: "string \<Rightarrow> 'a option" where
  "unreadable body = None"

definition example_params :: params where
  "example_params = [(''q'', PStr ''standing''), (''court'', PStr []), (''page'', PUndefined)]"


section \<open>Properties of the rule index\<close>

lemma str_includes_iff: "str_includes s t \<longleftrightarrow> (\<exists>ps ss. s = ps @ t @ ss)"
proof (induction s)
  case Nil
  show ?case by simp
next
  case (Cons c cs)
  show ?case
  proof
    assume "str_includes (c # cs) t"
    then consider "prefix t (c # cs)" | "str_includes cs t" by auto
    then show "\<exists>ps ss. c # cs = ps @ t @ ss"
    proof cases
      case 1
      then obtain ss where "c # cs = t @ ss" by (auto simp: prefix_def)
      then have "c # cs = [] @ t @ ss" by simp
      then show ?thesis by blast
    next
      case 2
      with Cons.IH obtain ps ss where "cs = ps @ t @ ss" by blast
      then have "c # cs = (c # ps) @ t @ ss" by simp
      then show ?thesis by blast
    qed
  next
    assume "\<exists>ps ss. c # cs = ps @ t @ ss"
    then obtain ps ss where eq: "c # cs = ps @ t @ ss" by blast
    show "str_includes (c # cs) t"
    proof (cases ps)
      case Nil
      with eq have "prefix t (c # cs)" by (simp add: prefix_def)
      then show ?thesis by simp
    next
      case (Cons p ps')
      with eq have "cs = ps' @ t @ ss" by simp
      with Cons.IH have "str_includes cs t" by blast
      then show ?thesis by simp
    qed
  qed
qed

lemma str_includes_Nil: "str_includes s []"
  by (cases s) simp_all

lemma content_in_searchText:
  assumes "str_includes (toLowerCase (chunk_content chunk)) q"
  shows "str_includes (searchText chunk) q"
proof -
  from assms obtain ps ss where "toLowerCase (chunk_content chunk) = ps @ q @ ss"
    by (auto simp: str_includes_iff)
  moreover have "searchText chunk =
      toLowerCase (chunk_title chunk @ '' '') @ toLowerCase (chunk_content chunk) @
      toLowerCase ('' '' @
        (case chunk_keywords chunk of None \<Rightarrow> [] | Some ks \<Rightarrow> join '' '' ks))"
    by (simp add: searchText_def toLowerCase_def)
  ultimately have "searchText chunk =
      (toLowerCase (chunk_title chunk @ '' '') @ ps) @ q @
      (ss @ toLowerCase ('' '' @
        (case chunk_keywords chunk of None \<Rightarrow> [] | Some ks \<Rightarrow> join '' '' ks)))"
    by simp
  then show ?thesis unfolding str_includes_iff by blast
qed

lemma load_files_result:
  "load_files idx files =
     (first_failure files,
      idx\<lparr>rulesCache := fold (\<lambda>r. map_set (rule_number r) r) (parsed_prefix files) (rulesCache idx),
          allChunks := allChunks idx @ concat (map chunks_of (parsed_prefix files))\<rparr>)"
proof (induction files arbitrary: idx)
  case Nil
  show ?case by simp
next
  case (Cons e files)
  obtain fname src where e: "e = (fname, src)" by (cases e)
  show ?case
  proof (cases src)
    case Unreadable
    with e show ?thesis by simp
  next
    case NotJson
    with e show ?thesis by simp
  next
    case (Json rule)
    show ?thesis
    proof (cases "rule_chunks rule")
      case None
      with e Json show ?thesis by (simp add: chunks_of_def)
    next
      case (Some chunks)
      with e Json Cons.IH show ?thesis by (simp add: chunks_of_def)
    qed
  qed
qed

lemma loadRules_state:
  "fst (loadRules idx dir) =
     idx\<lparr>rulesCache := fold (\<lambda>r. map_set (rule_number r) r) (documents_loaded dir) (rulesCache idx),
         allChunks := allChunks idx @ concat (map chunks_of (documents_loaded dir))\<rparr>"
proof (cases dir)
  case None
  then show ?thesis by (simp add: loadRules_def documents_loaded_def)
next
  case (Some entries)
  show ?thesis
    unfolding Some loadRules_def documents_loaded_def rule_files_def
    by (simp add: load_files_result Let_def split: option.splits)
qed

lemma loadRules_log:
  "snd (loadRules idx dir) =
     (case load_exception dir of
        None \<Rightarrow> Loaded (length (rulesCache (fst (loadRules idx dir))))
                  (length (allChunks (fst (loadRules idx dir))))
      | Some e \<Rightarrow> ErrorLoadingRules e)"
proof (cases dir)
  case None
  then show ?thesis by (simp add: loadRules_def load_exception_def)
next
  case (Some entries)
  show ?thesis
    unfolding Some loadRules_def load_exception_def rule_files_def
    by (simp add: load_files_result Let_def split: option.splits)
qed

lemma map_set_fresh: "k \<notin> fst ` set m \<Longrightarrow> map_set k v m = m @ [(k, v)]"
  by (induction m) auto

lemma fold_map_set_distinct:
  "distinct (map rule_number docs) \<Longrightarrow> fst ` set m \<inter> rule_number ` set docs = {} \<Longrightarrow>
   fold (\<lambda>r. map_set (rule_number r) r) docs m = m @ map (\<lambda>r. (rule_number r, r)) docs"
proof (induction docs arbitrary: m)
  case Nil
  show ?case by simp
next
  case (Cons d docs)
  from Cons.prems have fresh: "rule_number d \<notin> fst ` set m" by auto
  have "fst ` set (m @ [(rule_number d, d)]) \<inter> rule_number ` set docs = {}"
    using Cons.prems by auto
  moreover have "distinct (map rule_number docs)" using Cons.prems by simp
  ultimately have "fold (\<lambda>r. map_set (rule_number r) r) docs (m @ [(rule_number d, d)]) =
      (m @ [(rule_number d, d)]) @ map (\<lambda>r. (rule_number r, r)) docs"
    by (rule Cons.IH[rotated])
  then show ?case using fresh by (simp add: map_set_fresh)
qed

subsection \<open>C1: loading a directory with a bad document\<close>

text \<open>
  C1 as stated says that a malformed or unreadable document is skipped and every other
  document is still loaded. With a file that is not JSON listed first and a well-formed
  rule file second, the \<open>catch\<close> is reached at the first file and the second is never
  read: the index stays empty, and the log has the parse error.
\<close>

theorem load_skips_bad_counterexample:
  "loadRules empty_index
     (Some [(''broken.json'', NotJson), (''lcvr-7.json'', Json example_rule)]) =
     (\<lparr>rulesCache = [], allChunks = []\<rparr>, ErrorLoadingRules (ParseFailed ''broken.json''))"
  by code_simp

text \<open>
  C1, amended. \<open>loadRules\<close> never raises to the caller: whatever is thrown inside is
  caught and goes to the log. Of the entries of the directory named \<open>*.json\<close>, in
  listing order, every document before the first entry that is unreadable, is not
  JSON or has no iterable chunks is loaded: keyed by its number, its chunks appended.
  Nothing of a later entry is loaded, and no chunk of the failing one; a failing
  document that parsed (it only lacks its chunks) has been keyed before the throw. If
  the directory listing itself fails, nothing is loaded. The log line is the error
  caught, or the two counts when nothing was thrown.
\<close>

theorem load_stops_at_first_failure:
  "fst (loadRules empty_index dir) =
     \<lparr>rulesCache = fold (\<lambda>r. map_set (rule_number r) r) (documents_loaded dir) [],
      allChunks = concat (map chunks_of (documents_loaded dir))\<rparr> \<and>
   snd (loadRules empty_index dir) =
     (case load_exception dir of
        None \<Rightarrow> Loaded (length (fold (\<lambda>r. map_set (rule_number r) r) (documents_loaded dir) []))
                  (length (concat (map chunks_of (documents_loaded dir))))
      | Some e \<Rightarrow> ErrorLoadingRules e)"
  by (simp add: loadRules_log loadRules_state empty_index_def split: option.splits)

theorem load_stops_at_first_failure_witness:
  "documents_loaded chunkless_dir = [example_rule, example_chunkless] \<and>
   load_exception chunkless_dir = Some (SpreadFailed ''lcvr-83.json'') \<and>
   loadRules empty_index chunkless_dir =
     (\<lparr>rulesCache = [(''LCvR 7'', example_rule), (''LCvR 83'', example_chunkless)],
       allChunks = [example_chunk]\<rparr>,
      ErrorLoadingRules (SpreadFailed ''lcvr-83.json'')) \<and>
   documents_loaded two_rules_dir = [example_rule, example_rule_5] \<and>
   load_exception two_rules_dir = None \<and>
   loadRules empty_index two_rules_dir =
     (\<lparr>rulesCache = [(''LCvR 7'', example_rule), (''LCvR 5.1'', example_rule_5)],
       allChunks = [example_chunk, example_chunk_a, example_chunk_d]\<rparr>,
      Loaded 2 3)"
proof -
  have a: "documents_loaded chunkless_dir = [example_rule, example_chunkless]" by code_simp
  have b: "load_exception chunkless_dir = Some (SpreadFailed ''lcvr-83.json'')" by code_simp
  have c: "fold (\<lambda>r. map_set (rule_number r) r) [example_rule, example_chunkless] [] =
      [(''LCvR 7'', example_rule), (''LCvR 83'', example_chunkless)]" by code_simp
  have d: "concat (map chunks_of [example_rule, example_chunkless]) = [example_chunk]"
    by code_simp
  have a': "documents_loaded two_rules_dir = [example_rule, example_rule_5]" by code_simp
  have b': "load_exception two_rules_dir = None" by code_simp
  have c': "fold (\<lambda>r. map_set (rule_number r) r) [example_rule, example_rule_5] [] =
      [(''LCvR 7'', example_rule), (''LCvR 5.1'', example_rule_5)]" by code_simp
  have d': "concat (map chunks_of [example_rule, example_rule_5]) =
      [example_chunk, example_chunk_a, example_chunk_d]" by code_simp
  note l = load_stops_at_first_failure [of chunkless_dir, unfolded a b c d]
  note l' = load_stops_at_first_failure [of two_rules_dir, unfolded a' b' c' d']
  show ?thesis using a b a' b' l l' by (simp add: prod_eq_iff)
qed

subsection \<open>C2: what a search includes and excludes\<close>

text \<open>
  C2, amended. For every loaded chunk and every string \<open>s\<close>: if the content of the chunk
  contains \<open>s\<close> case-insensitively, the chunk is among the matches of \<open>search(s)\<close> and its
  projection is in the reply; if the text searched (title, a space, content, a space,
  the keywords joined by spaces) does not contain \<open>s\<close> case-insensitively, the chunk is
  not among the matches. The reply is the projection of the matches, in order.
\<close>

theorem search_substring:
  assumes "chunk \<in> set (allChunks idx)"
  shows "(str_includes (toLowerCase (chunk_content chunk)) (toLowerCase s) \<longrightarrow>
            chunk \<in> set (matching idx (toLowerCase s)) \<and>
            project chunk \<in> set (reply_results (search_rules idx (Some s)))) \<and>
         (\<not> str_includes (searchText chunk) (toLowerCase s) \<longrightarrow>
            chunk \<notin> set (matching idx (toLowerCase s))) \<and>
         reply_results (search_rules idx (Some s)) = map project (matching idx (toLowerCase s))"
  using assms by (auto simp: matching_def search_rules_def Let_def content_in_searchText)

text \<open>
  C2 as stated excludes a chunk when none of title, content and keywords contains \<open>s\<close>.
  The sample chunk has the title \<open>Page\<close>, a content that starts with \<open>Limits\<close> and no
  keywords: neither field contains \<open>page limits\<close>, yet the search returns the chunk,
  because the query matches across the space that joins title and content.
\<close>

theorem search_across_fields_counterexample:
  "\<not> str_includes (toLowerCase (chunk_title example_chunk)) (toLowerCase ''page limits'') \<and>
   \<not> str_includes (toLowerCase (chunk_content example_chunk)) (toLowerCase ''page limits'') \<and>
   chunk_keywords example_chunk = None \<and>
   allChunks (fst (loadRules empty_index example_dir)) = [example_chunk] \<and>
   reply_results (search_rules (fst (loadRules empty_index example_dir)) (Some ''page limits''))
     = [project example_chunk]"
  by code_simp

theorem search_substring_witness:
  "example_chunk \<in> set (allChunks (fst (loadRules empty_index example_dir))) \<and>
   str_includes (toLowerCase (chunk_content example_chunk)) (toLowerCase ''MEMO'') \<and>
   project example_chunk \<in>
     set (reply_results (search_rules (fst (loadRules empty_index example_dir)) (Some ''MEMO''))) \<and>
   \<not> str_includes (searchText example_chunk) (toLowerCase ''reply'') \<and>
   example_chunk \<notin> set (matching (fst (loadRules empty_index example_dir)) (toLowerCase ''reply''))"
proof -
  have m: "example_chunk \<in> set (allChunks (fst (loadRules empty_index example_dir)))"
    by code_simp
  have h1: "str_includes (toLowerCase (chunk_content example_chunk)) (toLowerCase ''MEMO'')"
    by code_simp
  have h2: "\<not> str_includes (searchText example_chunk) (toLowerCase ''reply'')"
    by code_simp
  show ?thesis
    using m h1 h2 search_substring [OF m, of "''MEMO''"] search_substring [OF m, of "''reply''"]
    by blast
qed

subsection \<open>C5: load, then look up by the exact identifier\<close>

text \<open>
  C5. When the rule numbers of the documents put into the index are pairwise distinct,
  every identifier that is a key of the index after the load is the number of one of
  them, and \<open>get_rule\<close> on that exact identifier replies with that document as it
  was loaded (the whole record: number, title and the chunk list in its order).
\<close>

theorem get_rule_roundtrip:
  assumes "distinct (map rule_number (documents_loaded dir))"
    and "k \<in> fst ` set (rulesCache (fst (loadRules empty_index dir)))"
  shows "\<exists>d \<in> set (documents_loaded dir).
           rule_number d = k \<and> get_rule (fst (loadRules empty_index dir)) (Some k) = RuleText d"
proof -
  let ?docs = "documents_loaded dir"
  let ?idx = "fst (loadRules empty_index dir)"
  have cache: "rulesCache ?idx = map (\<lambda>r. (rule_number r, r)) ?docs"
    using fold_map_set_distinct [OF assms(1), of "[]"]
    by (simp add: loadRules_state empty_index_def)
  with assms(2) obtain d where d: "d \<in> set ?docs" "rule_number d = k" by auto
  have "distinct (map fst (rulesCache ?idx))"
    using assms(1) by (simp add: cache comp_def)
  moreover have "(k, d) \<in> set (rulesCache ?idx)" using d by (auto simp: cache)
  ultimately have "map_of (rulesCache ?idx) k = Some d" by simp
  then have "get_rule ?idx (Some k) = RuleText d"
    by (simp add: get_rule_def map_get_def Let_def)
  with d show ?thesis by blast
qed

theorem get_rule_roundtrip_witness:
  "distinct (map rule_number (documents_loaded unnumbered_dir)) \<and>
   ''LCvR 7'' \<in> fst ` set (rulesCache (fst (loadRules empty_index unnumbered_dir))) \<and>
   get_rule (fst (loadRules empty_index unnumbered_dir)) (Some ''LCvR 7'') = RuleText example_rule"
proof -
  have h1: "distinct (map rule_number (documents_loaded unnumbered_dir))" by code_simp
  have h2: "''LCvR 7'' \<in> fst ` set (rulesCache (fst (loadRules empty_index unnumbered_dir)))"
    by code_simp
  have docs: "documents_loaded unnumbered_dir = [example_rule, example_unnumbered]" by code_simp
  have n: "rule_number example_unnumbered \<noteq> ''LCvR 7''" by code_simp
  show ?thesis using get_rule_roundtrip [OF h1 h2] h1 h2 n by (auto simp: docs)
qed

subsection \<open>C6: the empty query\<close>

text \<open>
  C6. After one load into the empty index, a search for the empty string replies with
  one hit for every loaded chunk, once per occurrence, in flattening order: documents
  in load order, chunks in their order within each document. The hit of a chunk is its
  section, title, content and requirements.
\<close>

theorem search_empty_query:
  "search_rules (fst (loadRules empty_index dir)) (Some []) =
     \<lparr>reply_query = [],
      result_count = length (concat (map chunks_of (documents_loaded dir))),
      reply_results =
        map (\<lambda>chunk. \<lparr>hit_section = chunk_section chunk, hit_title = chunk_title chunk,
                       hit_content = chunk_content chunk,
                       hit_requirements = chunk_requirements chunk\<rparr>)
          (concat (map chunks_of (documents_loaded dir)))\<rparr>"
proof -
  have "project = (\<lambda>chunk :: 'a RuleChunk.
      \<lparr>hit_section = chunk_section chunk, hit_title = chunk_title chunk,
       hit_content = chunk_content chunk, hit_requirements = chunk_requirements chunk\<rparr>)"
    by (rule ext) (simp add: project_def)
  then show ?thesis
    by (simp add: search_rules_def matching_def Let_def toLowerCase_def str_includes_Nil
        loadRules_state empty_index_def)
qed

theorem search_empty_query_witness:
  "search_rules (fst (loadRules empty_index two_rules_dir)) (Some []) =
     \<lparr>reply_query = [], result_count = 3,
      reply_results =
        [\<lparr>hit_section = ''LCvR 7(e)'', hit_title = ''Page'',
          hit_content = ''Limits for memoranda'', hit_requirements = None\<rparr>,
         \<lparr>hit_section = ''LCvR 5.1(a)'', hit_title = ''Filing'',
          hit_content = ''Papers are filed with the Clerk'', hit_requirements = Some ()\<rparr>,
         \<lparr>hit_section = ''LCvR 5.1(d)'', hit_title = ''Format'',
          hit_content = ''Typed in 12 point font'', hit_requirements = None\<rparr>]\<rparr>"
proof -
  have docs: "concat (map chunks_of (documents_loaded two_rules_dir)) =
      [example_chunk, example_chunk_a, example_chunk_d]" by code_simp
  show ?thesis
    using search_empty_query [of two_rules_dir]
    by (simp add: docs example_chunk_def example_chunk_a_def example_chunk_d_def)
qed

subsection \<open>C10: the empty identifier\<close>

text \<open>
  C10 as stated says the first document in insertion order is returned for the empty
  identifier. With a document numbered \<open>LCvR 7\<close> loaded first and a document whose
  number is the empty string loaded second, the exact lookup finds the second one and
  the substring scan is never run.
\<close>

theorem get_rule_empty_first_counterexample:
  "rulesCache (fst (loadRules empty_index unnumbered_dir)) =
     [(''LCvR 7'', example_rule), ([], example_unnumbered)] \<and>
   get_rule (fst (loadRules empty_index unnumbered_dir)) (Some []) = RuleText example_unnumbered \<and>
   example_unnumbered \<noteq> example_rule"
  by code_simp

text \<open>
  C10, amended. Whenever the index holds at least one document, \<open>get_rule\<close> on the
  empty identifier replies with a document, never with chunks or the not-found text:
  the document stored under the empty key if there is one, and otherwise the first
  document in insertion order, which the substring scan accepts at once.
\<close>

theorem get_rule_empty_identifier:
  assumes "rulesCache idx \<noteq> []"
  shows "get_rule idx (Some []) =
           RuleText (case map_get (rulesCache idx) [] of
                       Some r \<Rightarrow> r
                     | None \<Rightarrow> snd (hd (rulesCache idx)))"
proof (cases "map_get (rulesCache idx) []")
  case (Some r)
  then show ?thesis by (simp add: get_rule_def Let_def)
next
  case None
  from assms obtain kv rest where c: "rulesCache idx = kv # rest" by (cases "rulesCache idx") auto
  have "partial_match [] kv" by (simp add: partial_match_def toLowerCase_def str_includes_Nil)
  then have "find (partial_match []) (rulesCache idx) = Some kv" by (simp add: c)
  with None c show ?thesis by (simp add: get_rule_def Let_def)
qed

theorem get_rule_empty_identifier_witness:
  "rulesCache (fst (loadRules empty_index example_dir)) \<noteq> [] \<and>
   get_rule (fst (loadRules empty_index example_dir)) (Some []) = RuleText example_rule"
proof -
  have h: "rulesCache (fst (loadRules empty_index example_dir)) \<noteq> []" by code_simp
  have c: "(case map_get (rulesCache (fst (loadRules empty_index example_dir))) [] of
              Some r \<Rightarrow> r
            | None \<Rightarrow> snd (hd (rulesCache (fst (loadRules empty_index example_dir))))) = example_rule"
    by code_simp
  show ?thesis using get_rule_empty_identifier [OF h] h c by simp
qed

section \<open>Properties of the client\<close>

subsection \<open>The request built by \<open>fetchApi\<close>\<close>

lemma searchParams_set_fresh: "k \<notin> fst ` set m \<Longrightarrow> searchParams_set k v m = m @ [(k, v)]"
  by (induction m) auto

lemma add_params_distinct:
  "distinct (map fst ps) \<Longrightarrow> fst ` set (searchParams u) \<inter> fst ` set ps = {} \<Longrightarrow>
   add_params u ps =
     u\<lparr>searchParams := searchParams u @
          map (\<lambda>(k, v). (k, String v)) (filter (\<lambda>(k, v). v \<noteq> PUndefined) ps)\<rparr>"
proof (induction ps arbitrary: u)
  case Nil
  show ?case by (simp add: add_params_def)
next
  case (Cons e ps)
  obtain k v where e: "e = (k, v)" by (cases e)
  have step: "add_params u (e # ps) =
      add_params (if v \<noteq> PUndefined
                  then u\<lparr>searchParams := searchParams_set k (String v) (searchParams u)\<rparr>
                  else u) ps"
    by (simp add: add_params_def e)
  have fresh: "k \<notin> fst ` set (searchParams u)" using Cons.prems e by auto
  have d: "distinct (map fst ps)" and kps: "k \<notin> fst ` set ps" using Cons.prems e by auto
  show ?case
  proof (cases "v = PUndefined")
    case True
    have "fst ` set (searchParams u) \<inter> fst ` set ps = {}" using Cons.prems by auto
    from Cons.IH [OF d this] show ?thesis using True step e by simp
  next
    case False
    let ?u = "u\<lparr>searchParams := searchParams u @ [(k, String v)]\<rparr>"
    have "fst ` set (searchParams ?u) \<inter> fst ` set ps = {}" using Cons.prems kps by auto
    from Cons.IH [OF d this] show ?thesis
      using False step e fresh by (simp add: searchParams_set_fresh)
  qed
qed

lemma build_request_params:
  assumes "distinct (map fst ps)"
  shows "build_request cl endpoint (Some ps) =
     \<lparr>req_url = \<lparr>href = client_baseUrl cl @ endpoint,
                 searchParams = map (\<lambda>(k, v). (k, String v))
                                  (filter (\<lambda>(k, v). v \<noteq> PUndefined) ps)\<rparr>,
      req_headers = client_headers cl\<rparr>"
  using add_params_distinct [OF assms, of "\<lparr>href = client_baseUrl cl @ endpoint, searchParams = []\<rparr>"]
  by (simp add: build_request_def client_headers_def)

lemma fetchApi_sent: "fst (fetchApi cl fetch json endpoint ps) = [build_request cl endpoint ps]"
  by (simp add: fetchApi_def Let_def)

subsection \<open>C7: undefined and empty parameters\<close>

text \<open>
  C7. For every endpoint and every parameter object (its keys are distinct), the one
  request \<open>fetchApi\<close> issues carries exactly the parameters whose value is not
  undefined, each as \<open>String(value)\<close>, in the order of the object. So a key whose
  value is undefined does not occur in the query at all, and a key whose value is the
  empty string occurs with the empty string as its value.
\<close>

theorem undefined_omitted_empty_kept:
  assumes "distinct (map fst ps)"
  shows "fst (fetchApi cl fetch json endpoint (Some ps)) = [build_request cl endpoint (Some ps)] \<and>
         searchParams (req_url (build_request cl endpoint (Some ps))) =
           map (\<lambda>(k, v). (k, String v)) (filter (\<lambda>(k, v). v \<noteq> PUndefined) ps) \<and>
         ((k, PUndefined) \<in> set ps \<longrightarrow>
            k \<notin> fst ` set (searchParams (req_url (build_request cl endpoint (Some ps))))) \<and>
         ((k, PStr []) \<in> set ps \<longrightarrow>
            (k, []) \<in> set (searchParams (req_url (build_request cl endpoint (Some ps)))))"
proof -
  let ?q = "searchParams (req_url (build_request cl endpoint (Some ps)))"
  have q: "?q = map (\<lambda>(k, v). (k, String v)) (filter (\<lambda>(k, v). v \<noteq> PUndefined) ps)"
    by (simp add: build_request_params [OF assms])
  have "k \<notin> fst ` set ?q" if u: "(k, PUndefined) \<in> set ps"
  proof
    assume "k \<in> fst ` set ?q"
    then obtain v where "(k, v) \<in> set ps" "v \<noteq> PUndefined" by (auto simp: q)
    with u assms show False by (meson eq_key_imp_eq_value)
  qed
  moreover have "(k, []) \<in> set ?q" if "(k, PStr []) \<in> set ps"
    using that by (force simp: q)
  ultimately show ?thesis using q by (simp add: fetchApi_sent)
qed

theorem undefined_omitted_empty_kept_witness:
  "distinct (map fst example_params) \<and>
   (''page'', PUndefined) \<in> set example_params \<and>
   (''court'', PStr []) \<in> set example_params \<and>
   searchParams (req_url (build_request example_client ''/search/'' (Some example_params))) =
     [(''q'', ''standing''), (''court'', [])] \<and>
   ''page'' \<notin> fst ` set (searchParams
      (req_url (build_request example_client ''/search/'' (Some example_params)))) \<and>
   (''court'', []) \<in> set (searchParams
      (req_url (build_request example_client ''/search/'' (Some example_params))))"
proof -
  have d: "distinct (map fst example_params)" by code_simp
  have u: "(''page'', PUndefined) \<in> set example_params" by code_simp
  have e: "(''court'', PStr []) \<in> set example_params" by code_simp
  have q: "map (\<lambda>(k, v). (k, String v)) (filter (\<lambda>(k, v). v \<noteq> PUndefined) example_params) =
      [(''q'', ''standing''), (''court'', [])]" by code_simp
  show ?thesis
    using d u e
      undefined_omitted_empty_kept [OF d, of example_client ok_server
        "unreadable :: string \<Rightarrow> unit option" "''/search/''" "''page''"]
      undefined_omitted_empty_kept [OF d, of example_client ok_server
        "unreadable :: string \<Rightarrow> unit option" "''/search/''" "''court''"]
    unfolding q by blast
qed

subsection \<open>The citation pattern: what it accepts and what it captures\<close>

lemma first_some_eq_None: "first_some f xs = None \<longleftrightarrow> (\<forall>x\<in>set xs. f x = None)"
  by (induction xs) (auto split: option.splits)

lemma first_some_SomeD: "first_some f xs = Some y \<Longrightarrow> \<exists>x\<in>set xs. f x = Some y"
  by (induction xs) (auto split: option.splits)

lemma take_within_run:
  assumes "n \<le> length (takeWhile P s)"
  shows "\<forall>c\<in>set (take n s). P c"
proof -
  have "take n s = take n (takeWhile P s @ dropWhile P s)" by simp
  also have "\<dots> = take n (takeWhile P s)" using assms by (simp del: takeWhile_dropWhile_id)
  finally have "set (take n s) \<subseteq> set (takeWhile P s)" by (simp add: set_take_subset)
  then show ?thesis by (auto dest: set_takeWhileD)
qed

lemma run_length:
  assumes "\<forall>c\<in>set a. P c"
  shows "length a \<le> length (takeWhile P (a @ b))"
proof -
  have "takeWhile P (a @ b) = a @ takeWhile P b" using assms by (simp add: takeWhile_append2)
  then show ?thesis by simp
qed

lemma in_splits_iff:
  "(a, b) \<in> (\<lambda>n. (take n s, drop n s)) ` {1 ..< Suc (length (takeWhile P s))} \<longleftrightarrow>
   a @ b = s \<and> a \<noteq> [] \<and> (\<forall>c\<in>set a. P c)"
proof
  assume "(a, b) \<in> (\<lambda>n. (take n s, drop n s)) ` {1 ..< Suc (length (takeWhile P s))}"
  then obtain n where n: "1 \<le> n" "n \<le> length (takeWhile P s)" "a = take n s" "b = drop n s"
    by auto
  have "length (takeWhile P s) \<le> length s" by (rule length_takeWhile_le)
  with n have "a \<noteq> []" by auto
  moreover have "\<forall>c\<in>set a. P c" using take_within_run [OF n(2)] n(3) by simp
  ultimately show "a @ b = s \<and> a \<noteq> [] \<and> (\<forall>c\<in>set a. P c)" using n by simp
next
  assume r: "a @ b = s \<and> a \<noteq> [] \<and> (\<forall>c\<in>set a. P c)"
  then have "length a \<le> length (takeWhile P s)" using run_length [of a P b] by auto
  moreover have "1 \<le> length a" using r by (cases a) auto
  moreover have "take (length a) s = a" "drop (length a) s = b" using r by auto
  ultimately show "(a, b) \<in> (\<lambda>n. (take n s, drop n s)) ` {1 ..< Suc (length (takeWhile P s))}"
    by (auto simp: image_iff intro!: bexI [of _ "length a"])
qed

lemma in_greedy_plus:
  "(a, b) \<in> set (greedy_plus P s) \<longleftrightarrow> a @ b = s \<and> a \<noteq> [] \<and> (\<forall>c\<in>set a. P c)"
  unfolding greedy_plus_def set_map set_rev set_upt by (rule in_splits_iff)

lemma in_lazy_plus:
  "(a, b) \<in> set (lazy_plus P s) \<longleftrightarrow> a @ b = s \<and> a \<noteq> [] \<and> (\<forall>c\<in>set a. P c)"
  unfolding lazy_plus_def set_map set_upt by (rule in_splits_iff)

lemma match_page_SomeD:
  assumes "match_page v r s = Some t"
  shows "t = (v, r, s) \<and> s \<noteq> [] \<and> (\<forall>c\<in>set s. is_digit c)"
proof -
  from assms obtain page rest where
    "(page, rest) \<in> set (greedy_plus is_digit s)" "match_end v r page rest = Some t"
    unfolding match_page_def by (auto dest!: first_some_SomeD)
  then show ?thesis by (auto simp: in_greedy_plus match_end_def split: if_splits)
qed

lemma match_space2_SomeD:
  assumes "match_space2 v r s = Some t"
  shows "\<exists>w p. s = w @ p \<and> w \<noteq> [] \<and> (\<forall>c\<in>set w. is_space c) \<and>
           p \<noteq> [] \<and> (\<forall>c\<in>set p. is_digit c) \<and> t = (v, r, p)"
proof -
  from assms obtain w rest where
    "(w, rest) \<in> set (greedy_plus is_space s)" "match_page v r rest = Some t"
    unfolding match_space2_def by (auto dest!: first_some_SomeD)
  then show ?thesis using match_page_SomeD [of v r rest t] by (auto simp: in_greedy_plus)
qed

lemma match_reporter_SomeD:
  assumes "match_reporter v s = Some t"
  shows "\<exists>r w p. s = r @ w @ p \<and> r \<noteq> [] \<and> (\<forall>c\<in>set r. is_reporter_char c) \<and>
           w \<noteq> [] \<and> (\<forall>c\<in>set w. is_space c) \<and>
           p \<noteq> [] \<and> (\<forall>c\<in>set p. is_digit c) \<and> t = (v, r, p)"
proof -
  from assms obtain r rest where
    "(r, rest) \<in> set (lazy_plus is_reporter_char s)" "match_space2 v r rest = Some t"
    unfolding match_reporter_def by (auto dest!: first_some_SomeD)
  then show ?thesis using match_space2_SomeD [of v r rest t] by (auto simp: in_lazy_plus)
qed

lemma match_space1_SomeD:
  assumes "match_space1 v s = Some t"
  shows "\<exists>w1 r w2 p. s = w1 @ r @ w2 @ p \<and> w1 \<noteq> [] \<and> (\<forall>c\<in>set w1. is_space c) \<and>
           r \<noteq> [] \<and> (\<forall>c\<in>set r. is_reporter_char c) \<and>
           w2 \<noteq> [] \<and> (\<forall>c\<in>set w2. is_space c) \<and>
           p \<noteq> [] \<and> (\<forall>c\<in>set p. is_digit c) \<and> t = (v, r, p)"
proof -
  from assms obtain w rest where
    "(w, rest) \<in> set (greedy_plus is_space s)" "match_reporter v rest = Some t"
    unfolding match_space1_def by (auto dest!: first_some_SomeD)
  then show ?thesis using match_reporter_SomeD [of v rest t] by (auto simp: in_greedy_plus)
qed

lemma match_citation_SomeD:
  assumes "match_citation s = Some (v, r, p)"
  shows "\<exists>w1 w2. s = v @ w1 @ r @ w2 @ p \<and> v \<noteq> [] \<and> (\<forall>c\<in>set v. is_digit c) \<and>
           w1 \<noteq> [] \<and> (\<forall>c\<in>set w1. is_space c) \<and>
           r \<noteq> [] \<and> (\<forall>c\<in>set r. is_reporter_char c) \<and>
           w2 \<noteq> [] \<and> (\<forall>c\<in>set w2. is_space c) \<and>
           p \<noteq> [] \<and> (\<forall>c\<in>set p. is_digit c)"
proof -
  from assms obtain a rest where
    "(a, rest) \<in> set (greedy_plus is_digit s)" "match_space1 a rest = Some (v, r, p)"
    unfolding match_citation_def by (auto dest!: first_some_SomeD)
  then show ?thesis using match_space1_SomeD [of a rest "(v, r, p)"]
    by (auto simp: in_greedy_plus)
qed

lemma match_citation_complete:
  assumes "v \<noteq> []" "\<forall>c\<in>set v. is_digit c" "w1 \<noteq> []" "\<forall>c\<in>set w1. is_space c"
    "r \<noteq> []" "\<forall>c\<in>set r. is_reporter_char c" "w2 \<noteq> []" "\<forall>c\<in>set w2. is_space c"
    "p \<noteq> []" "\<forall>c\<in>set p. is_digit c"
  shows "match_citation (v @ w1 @ r @ w2 @ p) \<noteq> None"
proof -
  have "(p, []) \<in> set (greedy_plus is_digit p)" using assms by (simp add: in_greedy_plus)
  moreover have "match_end v r p [] \<noteq> None" by (simp add: match_end_def)
  ultimately have 1: "match_page v r p \<noteq> None"
    unfolding match_page_def first_some_eq_None by fastforce
  have "(w2, p) \<in> set (greedy_plus is_space (w2 @ p))" using assms by (simp add: in_greedy_plus)
  with 1 have 2: "match_space2 v r (w2 @ p) \<noteq> None"
    unfolding match_space2_def first_some_eq_None by fastforce
  have "(r, w2 @ p) \<in> set (lazy_plus is_reporter_char (r @ w2 @ p))"
    using assms by (simp add: in_lazy_plus)
  with 2 have 3: "match_reporter v (r @ w2 @ p) \<noteq> None"
    unfolding match_reporter_def first_some_eq_None by fastforce
  have "(w1, r @ w2 @ p) \<in> set (greedy_plus is_space (w1 @ r @ w2 @ p))"
    using assms by (simp add: in_greedy_plus)
  with 3 have 4: "match_space1 v (w1 @ r @ w2 @ p) \<noteq> None"
    unfolding match_space1_def first_some_eq_None by fastforce
  have "(v, w1 @ r @ w2 @ p) \<in> set (greedy_plus is_digit (v @ w1 @ r @ w2 @ p))"
    using assms by (simp add: in_greedy_plus)
  with 4 show ?thesis
    unfolding match_citation_def first_some_eq_None by fastforce
qed

lemma digit_not_space: "is_digit c \<Longrightarrow> \<not> is_space c"
  by (auto simp: is_digit_def is_space_def)

lemma space_is_space: "is_space CHR '' ''"
  by (simp add: is_space_def)

lemma leading_run_unique:
  assumes "a @ x # xs = b @ y # ys" "\<forall>c\<in>set a. P c" "\<forall>c\<in>set b. P c" "\<not> P x" "\<not> P y"
  shows "a = b \<and> x # xs = y # ys"
proof -
  have ta: "takeWhile P (a @ x # xs) = a" using assms(2,4) by (simp add: takeWhile_append2)
  have tb: "takeWhile P (b @ y # ys) = b" using assms(3,5) by (simp add: takeWhile_append2)
  have "a = b" using ta tb unfolding assms(1) by simp
  with assms(1) show ?thesis by simp
qed

lemma trailing_run_unique:
  assumes "xs @ x # a = ys @ y # b" "\<forall>c\<in>set a. P c" "\<forall>c\<in>set b. P c" "\<not> P x" "\<not> P y"
  shows "a = b \<and> xs @ [x] = ys @ [y]"
proof -
  have "rev a @ x # rev xs = rev b @ y # rev ys"
    using arg_cong [OF assms(1), of rev] by simp
  moreover have "\<forall>c\<in>set (rev a). P c" "\<forall>c\<in>set (rev b). P c" using assms by auto
  ultimately have "rev a = rev b \<and> x # rev xs = y # rev ys"
    using assms(4,5) by (rule leading_run_unique)
  then show ?thesis by auto
qed

lemma trim_ws_left: "\<forall>c\<in>set w. is_space c \<Longrightarrow> trim (w @ x) = trim x"
  by (simp add: trim_def dropWhile_append)

lemma trim_ws_right:
  assumes "\<forall>c\<in>set w. is_space c"
  shows "trim (x @ w) = trim x"
proof (cases "\<forall>c\<in>set x. is_space c")
  case True
  then have e: "dropWhile is_space (x @ w) = []" "dropWhile is_space x = []"
    using assms by (auto simp: dropWhile_eq_Nil_conv)
  show ?thesis unfolding trim_def by (simp only: e)
next
  case False
  then obtain c where "c \<in> set x" "\<not> is_space c" by blast
  then have "dropWhile is_space (x @ w) = dropWhile is_space x @ w"
    by (simp add: dropWhile_append1)
  moreover have "dropWhile is_space (rev w @ y) = dropWhile is_space y" for y
    using assms by (simp add: dropWhile_append)
  ultimately show ?thesis by (simp add: trim_def)
qed

lemma trim_id:
  assumes "r \<noteq> []" "\<not> is_space (hd r)" "\<not> is_space (last r)"
  shows "trim r = r"
proof -
  have "dropWhile is_space r = r" using assms by (cases r) auto
  moreover have "dropWhile is_space (rev r) = rev r"
    using assms by (cases "rev r") (auto simp: last_rev [symmetric] hd_rev)
  ultimately show ?thesis by (simp add: trim_def)
qed

lemma match_citation_spaced:
  assumes "v \<noteq> []" "\<forall>c\<in>set v. is_digit c"
    "r \<noteq> []" "\<forall>c\<in>set r. is_reporter_char c"
    "p \<noteq> []" "\<forall>c\<in>set p. is_digit c"
  shows "\<exists>b. match_citation (v @ '' '' @ r @ '' '' @ p) = Some (v, b, p) \<and> trim b = trim r"
proof -
  let ?s = "v @ '' '' @ r @ '' '' @ p"
  have "match_citation ?s \<noteq> None"
    using assms by (intro match_citation_complete) (simp_all add: space_is_space)
  then obtain a b c where m: "match_citation ?s = Some (a, b, c)" by auto
  from match_citation_SomeD [OF m] obtain w1 w2 where
    eq: "?s = a @ w1 @ b @ w2 @ c" and a: "\<forall>c\<in>set a. is_digit c"
    and w1: "w1 \<noteq> []" "\<forall>c\<in>set w1. is_space c"
    and w2: "w2 \<noteq> []" "\<forall>c\<in>set w2. is_space c"
    and c: "\<forall>x\<in>set c. is_digit x" by blast
  obtain x w1' where w1': "w1 = x # w1'" using w1 by (cases w1) auto
  have "v @ CHR '' '' # (r @ '' '' @ p) = a @ x # (w1' @ b @ w2 @ c)"
    using eq w1' by simp
  moreover have "\<not> is_digit CHR '' ''" "\<not> is_digit x"
    using w1 w1' digit_not_space space_is_space by auto
  ultimately have va: "v = a" and rest: "'' '' @ r @ '' '' @ p = w1 @ b @ w2 @ c"
    using leading_run_unique [of v "CHR '' ''" "r @ '' '' @ p" a x "w1' @ b @ w2 @ c" is_digit]
      assms(2) a w1' by auto
  obtain w2' y where w2': "w2 = w2' @ [y]" using w2 by (cases w2 rule: rev_cases) auto
  have "('' '' @ r) @ CHR '' '' # p = (w1 @ b @ w2') @ y # c"
    using rest w2' by simp
  moreover have "\<forall>x\<in>set p. \<not> is_space x" "\<forall>x\<in>set c. \<not> is_space x"
    using assms(6) c digit_not_space by auto
  moreover have "\<not> \<not> is_space CHR '' ''" "\<not> \<not> is_space y"
    using w2 w2' space_is_space by auto
  ultimately have pc: "p = c" and mid: "('' '' @ r) @ '' '' = (w1 @ b @ w2') @ [y]"
    using trailing_run_unique [of "'' '' @ r" "CHR '' ''" p "w1 @ b @ w2'" y c "\<lambda>x. \<not> is_space x"]
    by auto
  have "w1 @ b @ w2 = (w1 @ b @ w2') @ [y]" using w2' by simp
  also have "\<dots> = ('' '' @ r) @ '' ''" by (rule mid [symmetric])
  finally have whole: "w1 @ b @ w2 = '' '' @ r @ '' ''" by simp
  have "trim b = trim (w1 @ b @ w2)"
    using w1 w2 trim_ws_left [of w1 "b @ w2"] trim_ws_right [of w2 b] by simp
  also have "\<dots> = trim ('' '' @ r @ '' '')" by (simp only: whole)
  also have "\<dots> = trim r"
    using trim_ws_left [of "'' ''" "r @ '' ''"] trim_ws_right [of "'' ''" r]
    by (simp add: space_is_space)
  finally have "trim b = trim r" .
  with m va pc show ?thesis by simp
qed

lemma match_citation_bad_page:
  assumes "\<forall>c\<in>set tok. \<not> is_space c" "\<not> (tok \<noteq> [] \<and> (\<forall>c\<in>set tok. is_digit c))"
  shows "match_citation (pre @ '' '' @ tok) = None"
proof (rule ccontr)
  assume "match_citation (pre @ '' '' @ tok) \<noteq> None"
  then obtain a b c where m: "match_citation (pre @ '' '' @ tok) = Some (a, b, c)" by auto
  from match_citation_SomeD [OF m] obtain w1 w2 where
    eq: "pre @ '' '' @ tok = a @ w1 @ b @ w2 @ c"
    and w2: "w2 \<noteq> []" "\<forall>c\<in>set w2. is_space c"
    and c: "c \<noteq> []" "\<forall>x\<in>set c. is_digit x" by blast
  obtain w2' y where w2': "w2 = w2' @ [y]" using w2 by (cases w2 rule: rev_cases) auto
  have "pre @ CHR '' '' # tok = (a @ w1 @ b @ w2') @ y # c" using eq w2' by simp
  moreover have "\<forall>x\<in>set c. \<not> is_space x" using c digit_not_space by auto
  moreover have "\<not> \<not> is_space CHR '' ''" "\<not> \<not> is_space y"
    using w2 w2' space_is_space by auto
  ultimately have "tok = c"
    using trailing_run_unique [of pre "CHR '' ''" tok "a @ w1 @ b @ w2'" y c "\<lambda>x. \<not> is_space x"]
      assms(1) by auto
  with c assms(2) show False by simp
qed

lemma parseInt_digits:
  assumes "v \<noteq> []" "\<forall>c\<in>set v. is_digit c"
  shows "parseInt v =
     (case to_double (decimal v) of None \<Rightarrow> PInfinity | Some m \<Rightarrow> PNum (int m))"
proof -
  have tw: "takeWhile is_digit v = v" using assms(2) by (simp add: takeWhile_eq_all_conv)
  show ?thesis unfolding parseInt_def Let_def tw using assms(1) by simp
qed

lemma parseInt_exact:
  assumes "v \<noteq> []" "\<forall>c\<in>set v. is_digit c" "decimal v < 2 ^ 53"
  shows "parseInt v = PNum (int (decimal v))" "String (parseInt v) = show_nat (decimal v)"
proof -
  have "to_double (decimal v) = Some (decimal v)" using assms(3) by (simp add: to_double_def)
  then show "parseInt v = PNum (int (decimal v))"
    by (simp add: parseInt_digits [OF assms(1,2)])
  then show "String (parseInt v) = show_nat (decimal v)"
    using assms(3) by (simp add: show_int_def number_text_def)
qed

lemma lookupCitation_no_match:
  assumes "match_citation citation = None"
  shows "lookupCitation cl fetch jc js citation =
     (fst (fullTextSearch cl fetch js
             [(''q'', PStr ([CHR 0x22] @ citation @ [CHR 0x22])), (''type'', PStr ''o'')]),
      case snd (fullTextSearch cl fetch js
             [(''q'', PStr ([CHR 0x22] @ citation @ [CHR 0x22])), (''type'', PStr ''o'')]) of
        Inl e \<Rightarrow> Inl e
      | Inr searchResult \<Rightarrow> Inr \<lparr>clr_count = sr_count searchResult, clr_results = []\<rparr>)"
proof -
  obtain sent res where run: "fullTextSearch cl fetch js
      [(''q'', PStr ([CHR 0x22] @ citation @ [CHR 0x22])), (''type'', PStr ''o'')] = (sent, res)"
    by (cases "fullTextSearch cl fetch js
      [(''q'', PStr ([CHR 0x22] @ citation @ [CHR 0x22])), (''type'', PStr ''o'')]")
  show ?thesis
    unfolding lookupCitation_def assms run by (cases res) simp_all
qed

lemma search_request:
  "build_request cl ''/search/''
     (Some [(''q'', PStr ([CHR 0x22] @ citation @ [CHR 0x22])), (''type'', PStr ''o'')]) =
   \<lparr>req_url = \<lparr>href = client_baseUrl cl @ ''/search/'',
                searchParams = [(''q'', [CHR 0x22] @ citation @ [CHR 0x22]), (''type'', ''o'')]\<rparr>,
     req_headers = client_headers cl\<rparr>"
proof -
  have "distinct (map fst [(''q'', PStr ([CHR 0x22] @ citation @ [CHR 0x22])),
      (''type'', PStr ''o'')])"
    by simp
  from build_request_params [OF this, of cl "''/search/''"] show ?thesis by simp
qed

lemma lookupCitation_no_match_sent:
  assumes "match_citation citation = None"
  shows "fst (lookupCitation cl fetch jc js citation) =
           [\<lparr>req_url = \<lparr>href = client_baseUrl cl @ ''/search/'',
                        searchParams = [(''q'', [CHR 0x22] @ citation @ [CHR 0x22]),
                                        (''type'', ''o'')]\<rparr>,
             req_headers = client_headers cl\<rparr>]"
  by (simp add: lookupCitation_no_match [OF assms] fullTextSearch_def fetchApi_sent
      search_request [simplified])

lemma lookupCitation_no_match_results:
  assumes "match_citation citation = None"
    and "snd (lookupCitation cl fetch jc js citation) = Inr res"
  shows "clr_results res = []"
  using assms(2) unfolding lookupCitation_no_match [OF assms(1)]
  by (auto split: sum.splits)

lemma lookupCitation_matched:
  assumes "v \<noteq> []" and "\<forall>c\<in>set v. is_digit c"
    and "r \<noteq> []" and "\<forall>c\<in>set r. is_reporter_char c"
    and "p \<noteq> []" and "\<forall>c\<in>set p. is_digit c"
  shows "lookupCitation cl fetch jc js (v @ '' '' @ r @ '' '' @ p) =
           fetchApi cl fetch jc ''/citations/''
             (Some [(''volume'', parseInt v), (''reporter'', PStr (trim r)), (''page'', PStr p)])"
    and "fst (lookupCitation cl fetch jc js (v @ '' '' @ r @ '' '' @ p)) =
           [\<lparr>req_url = \<lparr>href = client_baseUrl cl @ ''/citations/'',
                        searchParams = [(''volume'', String (parseInt v)),
                                        (''reporter'', trim r), (''page'', p)]\<rparr>,
             req_headers = client_headers cl\<rparr>]"
proof -
  from match_citation_spaced [OF assms] obtain b where
    m: "match_citation (v @ '' '' @ r @ '' '' @ p) = Some (v, b, p)" and b: "trim b = trim r"
    by blast
  show call: "lookupCitation cl fetch jc js (v @ '' '' @ r @ '' '' @ p) =
      fetchApi cl fetch jc ''/citations/''
        (Some [(''volume'', parseInt v), (''reporter'', PStr (trim r)), (''page'', PStr p)])"
    unfolding lookupCitation_def m by (simp add: b)
  have u: "parseInt v \<noteq> PUndefined"
    by (simp add: parseInt_digits [OF assms(1,2)] split: option.splits)
  have "distinct (map fst [(''volume'', parseInt v), (''reporter'', PStr (trim r)),
      (''page'', PStr p)])" by simp
  from build_request_params [OF this, of cl "''/citations/''"]
  show "fst (lookupCitation cl fetch jc js (v @ '' '' @ r @ '' '' @ p)) =
      [\<lparr>req_url = \<lparr>href = client_baseUrl cl @ ''/citations/'',
                   searchParams = [(''volume'', String (parseInt v)), (''reporter'', trim r),
                                   (''page'', p)]\<rparr>,
        req_headers = client_headers cl\<rparr>]"
    unfolding call fetchApi_sent using u by simp
qed

subsection \<open>C3: a citation of the shape volume, reporter, page\<close>

text \<open>
  C3 as stated has the volume of every such citation parsed from it and sent. The
  volume goes through \<open>parseInt\<close>, which returns a double. For the citation
  \<open>9007199254740993 U.S. 544\<close>, whose volume is \<open>2^53 + 1\<close>, the request to
  \<open>/citations/\<close> carries the volume \<open>9007199254740992\<close>.
\<close>

theorem lookupCitation_rounds_volume_counterexample:
  "fst (lookupCitation example_client ok_server read_citations read_search
          ''9007199254740993 U.S. 544'') =
     [\<lparr>req_url = \<lparr>href = ''https://www.courtlistener.com/api/rest/v4/citations/'',
                  searchParams = [(''volume'', ''9007199254740992''), (''reporter'', ''U.S.''),
                                  (''page'', ''544'')]\<rparr>,
       req_headers = [(''Authorization'', ''Token secret''), (''Accept'', ''application/json'')]\<rparr>]"
proof -
  have h1: "''9007199254740993'' \<noteq> []" and h3: "''U.S.'' \<noteq> []" and h5: "''544'' \<noteq> []"
    by simp_all
  have h2: "\<forall>c\<in>set ''9007199254740993''. is_digit c" by code_simp
  have h4: "\<forall>c\<in>set ''U.S.''. is_reporter_char c" by code_simp
  have h6: "\<forall>c\<in>set ''544''. is_digit c" by code_simp
  have s: "''9007199254740993'' @ '' '' @ ''U.S.'' @ '' '' @ ''544'' =
      ''9007199254740993 U.S. 544''" by simp
  have d: "decimal ''9007199254740993'' = 9007199254740993"
    by (simp add: decimal_def digit_value_def)
  have "to_double 9007199254740993 = Some 9007199254740992"
    by (simp add: to_double_def bit_length.simps Let_def)
  then have pv: "parseInt ''9007199254740993'' = PNum 9007199254740992"
    by (simp add: parseInt_digits [OF h1 h2] d)
  have "show_nat 9007199254740992 = ''9007199254740992''"
    by (simp add: show_nat.simps digit_char_def char_of_def bit_simps)
  then have v: "String (parseInt ''9007199254740993'') = ''9007199254740992''"
    by (simp add: pv show_int_def number_text_def)
  have t: "trim ''U.S.'' = ''U.S.''" by code_simp
  have b: "client_baseUrl example_client @ ''/citations/'' =
      ''https://www.courtlistener.com/api/rest/v4/citations/''" by code_simp
  have h: "client_headers example_client =
      [(''Authorization'', ''Token secret''), (''Accept'', ''application/json'')]" by code_simp
  show ?thesis
    using lookupCitation_matched(2) [OF h1 h2 h3 h4 h5 h6, of example_client ok_server
      read_citations read_search]
    unfolding s v t b h .
qed

text \<open>
  C3, amended. Let \<open>v\<close> and \<open>p\<close> be non-empty strings of digits and \<open>r\<close> a non-empty
  string of characters of the reporter class (letters, digits, periods, white space).
  On the citation \<open>v r p\<close>, joined by single spaces, \<open>lookupCitation\<close> is the one call of
  \<open>fetchApi\<close> on \<open>/citations/\<close> with \<open>parseInt\<close> of the volume, the reporter trimmed and
  the page as text; the only request issued goes to that endpoint, none to the search.
  When the volume is below \<open>2^53\<close> the number sent is the volume itself, in decimal
  digits. A reporter that neither starts nor ends with white space is sent as it is.
\<close>

theorem lookupCitation_direct:
  assumes "v \<noteq> []" and "\<forall>c\<in>set v. is_digit c"
    and "r \<noteq> []" and "\<forall>c\<in>set r. is_reporter_char c"
    and "p \<noteq> []" and "\<forall>c\<in>set p. is_digit c"
  shows "lookupCitation cl fetch jc js (v @ '' '' @ r @ '' '' @ p) =
           fetchApi cl fetch jc ''/citations/''
             (Some [(''volume'', parseInt v),
                    (''reporter'', PStr (trim r)),
                    (''page'', PStr p)]) \<and>
         fst (lookupCitation cl fetch jc js (v @ '' '' @ r @ '' '' @ p)) =
           [\<lparr>req_url = \<lparr>href = client_baseUrl cl @ ''/citations/'',
                        searchParams = [(''volume'', String (parseInt v)),
                                        (''reporter'', trim r),
                                        (''page'', p)]\<rparr>,
             req_headers = [(''Authorization'', ''Token '' @ client_apiToken cl),
                            (''Accept'', ''application/json'')]\<rparr>] \<and>
         (decimal v < 2 ^ 53 \<longrightarrow>
            parseInt v = PNum (int (decimal v)) \<and>
            String (parseInt v) = show_nat (decimal v)) \<and>
         (\<not> is_space (hd r) \<and> \<not> is_space (last r) \<longrightarrow> trim r = r)"
  using lookupCitation_matched [OF assms, of cl fetch jc js]
    parseInt_exact [OF assms(1,2)] trim_id [OF assms(3)]
  by (simp add: client_headers_def)

theorem lookupCitation_direct_witness:
  "list_all is_digit ''550'' \<and> list_all is_reporter_char ''U.S.'' \<and>
   list_all is_digit ''544'' \<and> decimal ''550'' < 2 ^ 53 \<and>
   fst (lookupCitation example_client ok_server read_citations read_search ''550 U.S. 544'') =
     [\<lparr>req_url = \<lparr>href = ''https://www.courtlistener.com/api/rest/v4/citations/'',
                  searchParams = [(''volume'', ''550''), (''reporter'', ''U.S.''),
                                  (''page'', ''544'')]\<rparr>,
       req_headers = [(''Authorization'', ''Token secret''), (''Accept'', ''application/json'')]\<rparr>] \<and>
   lookupCitation example_client ok_server read_citations read_search ''550 U.S. 544'' =
     fetchApi example_client ok_server read_citations ''/citations/''
       (Some [(''volume'', PNum 550), (''reporter'', PStr ''U.S.''), (''page'', PStr ''544'')]) \<and>
   snd (lookupCitation example_client ok_server read_citations read_search ''550 U.S. 544'') =
     Inr \<lparr>clr_count = 1, clr_results = [()]\<rparr>"
proof -
  have h1: "''550'' \<noteq> []" and h3: "''U.S.'' \<noteq> []" and h5: "''544'' \<noteq> []" by simp_all
  have h2: "\<forall>c\<in>set ''550''. is_digit c" by code_simp
  have h4: "\<forall>c\<in>set ''U.S.''. is_reporter_char c" by code_simp
  have h6: "\<forall>c\<in>set ''544''. is_digit c" by code_simp
  have s: "''550'' @ '' '' @ ''U.S.'' @ '' '' @ ''544'' = ''550 U.S. 544''" by simp
  have d: "decimal ''550'' = 550" by (simp add: decimal_def digit_value_def)
  have t: "trim ''U.S.'' = ''U.S.''" by code_simp
  have e: "\<not> is_space (hd ''U.S.'') \<and> \<not> is_space (last ''U.S.'')" by code_simp
  have b: "client_baseUrl example_client @ ''/citations/'' =
      ''https://www.courtlistener.com/api/rest/v4/citations/''" by code_simp
  have a: "''Token '' @ client_apiToken example_client = ''Token secret''" by code_simp
  have r: "snd (fetchApi example_client ok_server read_citations ''/citations/''
      (Some [(''volume'', PNum 550), (''reporter'', PStr ''U.S.''), (''page'', PStr ''544'')])) =
      Inr \<lparr>clr_count = 1, clr_results = [()]\<rparr>" by code_simp
  have pv: "parseInt ''550'' = PNum 550" by code_simp
  have sv: "String (PNum 550) = ''550''" by code_simp
  have small: "decimal ''550'' < 2 ^ 53" by (simp add: d)
  note l = lookupCitation_direct [OF h1 h2 h3 h4 h5 h6, of example_client ok_server
      read_citations read_search, unfolded s b a pv sv t]
  from l have l1: "lookupCitation example_client ok_server read_citations read_search
      ''550 U.S. 544'' =
      fetchApi example_client ok_server read_citations ''/citations/''
        (Some [(''volume'', PNum 550), (''reporter'', PStr ''U.S.''), (''page'', PStr ''544'')])"
    by (rule conjunct1)
  have l3: "snd (lookupCitation example_client ok_server read_citations read_search
      ''550 U.S. 544'') = Inr \<lparr>clr_count = 1, clr_results = [()]\<rparr>"
    unfolding l1 by (rule r)
  show ?thesis
    using h2 h4 h6 small l l3 unfolding list_all_iff by blast
qed

subsection \<open>C4: a citation that does not match the pattern\<close>

text \<open>
  C4. When the citation does not match the pattern, \<open>lookupCitation\<close> issues one
  request: the full-text search on \<open>/search/\<close> whose query \<open>q\<close> is the citation between
  two double quote characters and whose type is \<open>o\<close> (opinions). No exception comes from
  the citation itself: the call fails only as that one request fails (the network, a
  status outside 200 to 299, a body that is not JSON), and when the request succeeds
  the result carries the count of the search response and an empty list of results.
\<close>

theorem lookupCitation_fallback:
  assumes "match_citation citation = None"
  shows "fst (lookupCitation cl fetch jc js citation) =
           [\<lparr>req_url = \<lparr>href = client_baseUrl cl @ ''/search/'',
                        searchParams = [(''q'', CHR 0x22 # citation @ [CHR 0x22]),
                                        (''type'', ''o'')]\<rparr>,
             req_headers = [(''Authorization'', ''Token '' @ client_apiToken cl),
                            (''Accept'', ''application/json'')]\<rparr>] \<and>
         snd (lookupCitation cl fetch jc js citation) =
           (case fetch
                   \<lparr>req_url = \<lparr>href = client_baseUrl cl @ ''/search/'',
                                searchParams = [(''q'', CHR 0x22 # citation @ [CHR 0x22]),
                                                (''type'', ''o'')]\<rparr>,
                     req_headers = [(''Authorization'', ''Token '' @ client_apiToken cl),
                                    (''Accept'', ''application/json'')]\<rparr> of
              NetworkFailure \<Rightarrow> Inl FetchRejected
            | Response status body \<Rightarrow>
                if response_ok status
                then (case js body of
                        None \<Rightarrow> Inl InvalidJson
                      | Some searchResult \<Rightarrow>
                          Inr \<lparr>clr_count = sr_count searchResult, clr_results = []\<rparr>)
                else Inl (Error (api_error_message status body)))"
proof -
  have req: "build_request cl ''/search/''
      (Some [(''q'', PStr ([CHR 0x22] @ citation @ [CHR 0x22])), (''type'', PStr ''o'')]) =
      \<lparr>req_url = \<lparr>href = client_baseUrl cl @ ''/search/'',
                   searchParams = [(''q'', CHR 0x22 # citation @ [CHR 0x22]), (''type'', ''o'')]\<rparr>,
        req_headers = [(''Authorization'', ''Token '' @ client_apiToken cl),
                       (''Accept'', ''application/json'')]\<rparr>"
    using search_request [of cl citation] by (simp add: client_headers_def)
  show ?thesis
    unfolding lookupCitation_no_match [OF assms] fullTextSearch_def fetchApi_def Let_def req
    by (simp split: http_outcome.splits option.splits)
qed

theorem lookupCitation_fallback_witness:
  "match_citation ''Twombly'' = None \<and>
   fst (lookupCitation example_client ok_server read_citations read_search ''Twombly'') =
     [\<lparr>req_url = \<lparr>href = ''https://www.courtlistener.com/api/rest/v4/search/'',
                  searchParams = [(''q'', CHR 0x22 # ''Twombly'' @ [CHR 0x22]), (''type'', ''o'')]\<rparr>,
       req_headers = [(''Authorization'', ''Token secret''), (''Accept'', ''application/json'')]\<rparr>] \<and>
   snd (lookupCitation example_client ok_server read_citations read_search ''Twombly'') =
     Inr \<lparr>clr_count = 3, clr_results = []\<rparr> \<and>
   snd (lookupCitation example_client not_found_server read_citations read_search ''Twombly'') =
     Inl (Error ''CourtListener API error (404): Not found.'')"
proof -
  have n: "match_citation ''Twombly'' = None" by code_simp
  have b: "client_baseUrl example_client @ ''/search/'' =
      ''https://www.courtlistener.com/api/rest/v4/search/''" by code_simp
  have a: "client_apiToken example_client = ''secret''" by code_simp
  have m: "api_error_message 404 ''Not found.'' = ''CourtListener API error (404): Not found.''"
    by code_simp
  note l = lookupCitation_fallback [OF n, of example_client ok_server read_citations read_search,
      unfolded b a]
  note l' = lookupCitation_fallback [OF n, of example_client not_found_server read_citations
      read_search, unfolded b a]
  show ?thesis
    using n l l'
    by (simp add: ok_server_def not_found_server_def read_search_def response_ok_def m)
qed

subsection \<open>C9: a page token that is not a number\<close>

text \<open>
  C9. Let the last token of a citation, after a space, contain no white space and not
  consist of digits only (as in \<open>550 U.S. 544a\<close>). Then the only request
  \<open>lookupCitation\<close> issues is the full-text search, none goes to \<open>/citations/\<close>, and
  whenever it returns a result the list of results in it is empty, whatever the server
  and the reader of its response are.
\<close>

theorem lookupCitation_nonnumeric_page:
  assumes "\<forall>c\<in>set tok. \<not> is_space c"
    and "\<not> (tok \<noteq> [] \<and> (\<forall>c\<in>set tok. is_digit c))"
  shows "fst (lookupCitation cl fetch jc js (v @ '' '' @ r @ '' '' @ tok)) =
           [\<lparr>req_url = \<lparr>href = client_baseUrl cl @ ''/search/'',
                        searchParams =
                          [(''q'', [CHR 0x22] @ (v @ '' '' @ r @ '' '' @ tok) @ [CHR 0x22]),
                           (''type'', ''o'')]\<rparr>,
             req_headers = client_headers cl\<rparr>] \<and>
         (\<forall>res. snd (lookupCitation cl fetch jc js (v @ '' '' @ r @ '' '' @ tok)) = Inr res
                \<longrightarrow> clr_results res = [])"
proof -
  have "match_citation ((v @ '' '' @ r) @ '' '' @ tok) = None"
    using assms by (rule match_citation_bad_page)
  then have none: "match_citation (v @ '' '' @ r @ '' '' @ tok) = None" by simp
  show ?thesis
    using lookupCitation_no_match_sent [OF none, of cl fetch jc js]
      lookupCitation_no_match_results [OF none, of cl fetch jc js]
    by blast
qed

theorem lookupCitation_nonnumeric_page_witness:
  "\<not> list_ex is_space ''544a'' \<and> \<not> list_all is_digit ''544a'' \<and>
   fst (lookupCitation example_client ok_server read_citations read_search ''550 U.S. 544a'') =
     [\<lparr>req_url = \<lparr>href = ''https://www.courtlistener.com/api/rest/v4/search/'',
                  searchParams = [(''q'', [CHR 0x22] @ ''550 U.S. 544a'' @ [CHR 0x22]),
                                  (''type'', ''o'')]\<rparr>,
       req_headers = [(''Authorization'', ''Token secret''), (''Accept'', ''application/json'')]\<rparr>] \<and>
   snd (lookupCitation example_client ok_server read_citations read_search ''550 U.S. 544a'') =
     Inr \<lparr>clr_count = 3, clr_results = []\<rparr>"
proof -
  have h1: "\<forall>c\<in>set ''544a''. \<not> is_space c" by code_simp
  have h2: "\<not> (''544a'' \<noteq> [] \<and> (\<forall>c\<in>set ''544a''. is_digit c))" by code_simp
  have s: "''550'' @ '' '' @ ''U.S.'' @ '' '' @ ''544a'' = ''550 U.S. 544a''" by simp
  have b: "client_baseUrl example_client @ ''/search/'' =
      ''https://www.courtlistener.com/api/rest/v4/search/''" by code_simp
  have h: "client_headers example_client =
      [(''Authorization'', ''Token secret''), (''Accept'', ''application/json'')]" by code_simp
  have r: "snd (lookupCitation example_client ok_server read_citations read_search
      ''550 U.S. 544a'') = Inr \<lparr>clr_count = 3, clr_results = []\<rparr>" by code_simp
  note d = lookupCitation_nonnumeric_page [OF h1 h2, of example_client ok_server
      read_citations read_search "''550''" "''U.S.''", unfolded s b h]
  show ?thesis using h1 h2 r d unfolding list_all_iff list_ex_iff by blast
qed

subsection \<open>Rejected requests\<close>





subsection \<open>C8: a response outside 200 to 299\<close>



end
